theory Spec2Isabelle
  imports Main
begin

section \<open>The configuration value\<close>

text \<open>
  The Go struct \<open>Classic\<close> of \<open>classic/classic.go\<close>, with its three anonymous
  inner structs. Go strings are byte strings (\<open>string\<close> here), a slice is a list
  (the code only asks for its length and its elements), and \<open>port\<close> is a Go \<open>int\<close>
  on which no arithmetic is done, so it is an \<open>int\<close> that is only printed.
\<close>

record proxy_t =
  server :: string
  port :: int

record auth_t =
  username :: string
  password :: string

record freeze_t =
  outputFilename :: string
  locales :: "string list"

record Classic =
  path :: string
  "locale" :: string
  proxy :: proxy_t
  proxyAuth :: auth_t
  selectedApps :: "string list"
  excludedApps :: "string list"
  remote :: "string list"
  remoteAuth :: auth_t
  disableShortcuts :: bool
  disableAutoUpdate :: bool
  allUsers :: bool
  cachePath :: string
  noCache :: bool
  cleanCache :: bool
  updateOnly :: bool
  uninstall :: bool
  freeze :: freeze_t
  list :: bool

text \<open>The zero value \<open>Classic{}\<close>: every string empty, every slice nil, every flag false.\<close>

definition zeroClassic :: Classic where
  "zeroClassic =
     \<lparr> path = '''', locale = '''',
       proxy = \<lparr> server = '''', port = 0 \<rparr>,
       proxyAuth = \<lparr> username = '''', password = '''' \<rparr>,
       selectedApps = [], excludedApps = [], remote = [],
       remoteAuth = \<lparr> username = '''', password = '''' \<rparr>,
       disableShortcuts = False, disableAutoUpdate = False, allUsers = False,
       cachePath = '''', noCache = False, cleanCache = False,
       updateOnly = False, uninstall = False,
       freeze = \<lparr> outputFilename = '''', locales = [] \<rparr>,
       list = False \<rparr>"

subsection \<open>Decimal printing, as \<open>strconv.Itoa\<close>\<close>

function digits :: "nat \<Rightarrow> string" where
  "digits n =
     (if n < 10 then [''0123456789'' ! n]
      else digits (n div 10) @ [''0123456789'' ! (n mod 10)])"
  by pat_completeness auto
termination
  by (relation "measure (\<lambda>n. n)") auto

declare digits.simps [simp del]

definition Itoa :: "int \<Rightarrow> string" where
  "Itoa i = (if i < 0 then CHR ''-'' # digits (nat (- i)) else digits (nat i))"

subsection \<open>\<open>composeArgs\<close>\<close>

text \<open>
  The body of \<open>composeArgs\<close> is a run of guarded \<open>args = append(args, ...)\<close>
  statements. Each statement is one binding of the chain below, in the order of the
  source.
\<close>

definition composeArgs :: "Classic \<Rightarrow> string list" where
  "composeArgs c =
     (let args = [''/silent'', ''.''];
          args = (if locale c \<noteq> '''' then args @ [''/locale'', locale c] else args);
          args = (if server (proxy c) \<noteq> '''' \<and> port (proxy c) \<noteq> 0
                  then args @ [''/proxy'', server (proxy c), Itoa (port (proxy c))]
                  else args);
          args = (if username (proxyAuth c) \<noteq> '''' \<and> password (proxyAuth c) \<noteq> ''''
                  then args @ [''/proxyauth'', username (proxyAuth c), password (proxyAuth c)]
                  else args);
          args = (if length (selectedApps c) > 0
                  then (args @ [''/select'']) @ selectedApps c else args);
          args = (if length (excludedApps c) > 0
                  then (args @ [''/exclude'']) @ excludedApps c else args);
          args = (if length (remote c) > 0
                  then (args @ [''/remote'']) @ remote c else args);
          args = (if username (remoteAuth c) \<noteq> '''' \<and> password (remoteAuth c) \<noteq> ''''
                  then args @ [''/remoteauth'', username (remoteAuth c), password (remoteAuth c)]
                  else args);
          args = (if disableShortcuts c then args @ [''/disableshortcuts''] else args);
          args = (if disableAutoUpdate c then args @ [''/disableautoupdate''] else args);
          args = (if allUsers c then args @ [''/allusers''] else args);
          args = (if cachePath c \<noteq> '''' then args @ [''/cachepath'', cachePath c] else args);
          args = (if noCache c then args @ [''/nocache''] else args);
          args = (if cleanCache c then args @ [''/cleancache''] else args);
          args = (if updateOnly c then args @ [''/updateonly''] else args);
          args = (if outputFilename (freeze c) \<noteq> ''''
                  then (let args = args @ [''/freeze''];
                            args = (if length (locales (freeze c)) > 0
                                    then args @ locales (freeze c) else args)
                        in args @ [outputFilename (freeze c)])
                  else args);
          args = (if list c then args @ [''/list'', ''versions''] else args)
      in args)"

subsection \<open>The setters\<close>

text \<open>
  Every setter has a value receiver: it updates its own copy and returns it.
  \<open>NewClassic\<close> returns, when it returns a value at all, the zero value with the path
  set, which is \<open>newClassic\<close> here; the file-system lookup before it decides only the
  path and the error.
\<close>

definition newClassic :: "string \<Rightarrow> Classic" where
  "newClassic p = zeroClassic\<lparr> path := p \<rparr>"

definition Locale :: "Classic \<Rightarrow> string \<Rightarrow> Classic" where
  "Locale c code = c\<lparr> locale := code \<rparr>"

definition Proxy :: "Classic \<Rightarrow> string \<Rightarrow> int \<Rightarrow> Classic" where
  "Proxy c srv prt = c\<lparr> proxy := \<lparr> server = srv, port = prt \<rparr> \<rparr>"

definition ProxyAuth :: "Classic \<Rightarrow> string \<Rightarrow> string \<Rightarrow> Classic" where
  "ProxyAuth c u p = c\<lparr> proxyAuth := \<lparr> username = u, password = p \<rparr> \<rparr>"

definition Select :: "Classic \<Rightarrow> string list \<Rightarrow> Classic" where
  "Select c apps = c\<lparr> selectedApps := apps \<rparr>"

definition Exclude :: "Classic \<Rightarrow> string list \<Rightarrow> Classic" where
  "Exclude c apps = c\<lparr> excludedApps := apps \<rparr>"

definition Remote :: "Classic \<Rightarrow> string list \<Rightarrow> Classic" where
  "Remote c machines = c\<lparr> remote := machines \<rparr>"

definition RemoteAuth :: "Classic \<Rightarrow> string \<Rightarrow> string \<Rightarrow> Classic" where
  "RemoteAuth c u p = c\<lparr> remoteAuth := \<lparr> username = u, password = p \<rparr> \<rparr>"

definition DisableShortcuts :: "Classic \<Rightarrow> Classic" where
  "DisableShortcuts c = c\<lparr> disableShortcuts := True \<rparr>"

definition DisableAutoUpdate :: "Classic \<Rightarrow> Classic" where
  "DisableAutoUpdate c = c\<lparr> disableAutoUpdate := True \<rparr>"

definition AllUsers :: "Classic \<Rightarrow> Classic" where
  "AllUsers c = c\<lparr> allUsers := True \<rparr>"

definition CachePath :: "Classic \<Rightarrow> string \<Rightarrow> Classic" where
  "CachePath c p = c\<lparr> cachePath := p \<rparr>"

definition NoCache :: "Classic \<Rightarrow> Classic" where
  "NoCache c = c\<lparr> noCache := True \<rparr>"

definition CleanCache :: "Classic \<Rightarrow> Classic" where
  "CleanCache c = c\<lparr> cleanCache := True \<rparr>"

text \<open>
  \<open>Prefer\<close> is \<open>if true { panic("Unimplemented") }; return Classic{}\<close>. A panic is the
  left summand of the result.
\<close>

datatype panic = Panic string

definition Prefer :: "Classic \<Rightarrow> panic + Classic" where
  "Prefer c = (if True then Inl (Panic ''Unimplemented'') else Inr zeroClassic)"

text \<open>
  The configurations a caller can hold. The fields are unexported, so outside the
  package a \<open>Classic\<close> is the zero value, the result of \<open>NewClassic\<close>, or what a setter
  returned for one of these.
\<close>

inductive built :: "Classic \<Rightarrow> bool" where
  b_zero: "built zeroClassic"
| b_new: "built (newClassic p)"
| b_Locale: "built c \<Longrightarrow> built (Locale c code)"
| b_Proxy: "built c \<Longrightarrow> built (Proxy c srv prt)"
| b_ProxyAuth: "built c \<Longrightarrow> built (ProxyAuth c u p)"
| b_Select: "built c \<Longrightarrow> built (Select c apps)"
| b_Exclude: "built c \<Longrightarrow> built (Exclude c apps)"
| b_Remote: "built c \<Longrightarrow> built (Remote c machines)"
| b_RemoteAuth: "built c \<Longrightarrow> built (RemoteAuth c u p)"
| b_DisableShortcuts: "built c \<Longrightarrow> built (DisableShortcuts c)"
| b_DisableAutoUpdate: "built c \<Longrightarrow> built (DisableAutoUpdate c)"
| b_AllUsers: "built c \<Longrightarrow> built (AllUsers c)"
| b_CachePath: "built c \<Longrightarrow> built (CachePath c p)"
| b_NoCache: "built c \<Longrightarrow> built (NoCache c)"
| b_CleanCache: "built c \<Longrightarrow> built (CleanCache c)"

subsection \<open>The argument order in the words of the specification\<close>

text \<open>
  One segment per option, empty when the option is not set; the specification lists
  the segments in this order.
\<close>

definition silentFlag :: "string list" where
  "silentFlag = [''/silent'', ''.'']"

definition localeFlag :: "Classic \<Rightarrow> string list" where
  "localeFlag c = (if locale c \<noteq> '''' then [''/locale'', locale c] else [])"

definition proxyFlag :: "Classic \<Rightarrow> string list" where
  "proxyFlag c =
     (if server (proxy c) \<noteq> '''' \<and> port (proxy c) \<noteq> 0
      then [''/proxy'', server (proxy c), Itoa (port (proxy c))] else [])"

definition proxyAuthFlag :: "Classic \<Rightarrow> string list" where
  "proxyAuthFlag c =
     (if username (proxyAuth c) \<noteq> '''' \<and> password (proxyAuth c) \<noteq> ''''
      then [''/proxyauth'', username (proxyAuth c), password (proxyAuth c)] else [])"

definition selectFlag :: "Classic \<Rightarrow> string list" where
  "selectFlag c = (if selectedApps c \<noteq> [] then ''/select'' # selectedApps c else [])"

definition excludeFlag :: "Classic \<Rightarrow> string list" where
  "excludeFlag c = (if excludedApps c \<noteq> [] then ''/exclude'' # excludedApps c else [])"

definition remoteFlag :: "Classic \<Rightarrow> string list" where
  "remoteFlag c = (if remote c \<noteq> [] then ''/remote'' # remote c else [])"

definition remoteAuthFlag :: "Classic \<Rightarrow> string list" where
  "remoteAuthFlag c =
     (if username (remoteAuth c) \<noteq> '''' \<and> password (remoteAuth c) \<noteq> ''''
      then [''/remoteauth'', username (remoteAuth c), password (remoteAuth c)] else [])"

definition disableShortcutsFlag :: "Classic \<Rightarrow> string list" where
  "disableShortcutsFlag c = (if disableShortcuts c then [''/disableshortcuts''] else [])"

definition disableAutoUpdateFlag :: "Classic \<Rightarrow> string list" where
  "disableAutoUpdateFlag c = (if disableAutoUpdate c then [''/disableautoupdate''] else [])"

definition allUsersFlag :: "Classic \<Rightarrow> string list" where
  "allUsersFlag c = (if allUsers c then [''/allusers''] else [])"

definition cachePathFlag :: "Classic \<Rightarrow> string list" where
  "cachePathFlag c = (if cachePath c \<noteq> '''' then [''/cachepath'', cachePath c] else [])"

definition noCacheFlag :: "Classic \<Rightarrow> string list" where
  "noCacheFlag c = (if noCache c then [''/nocache''] else [])"

definition cleanCacheFlag :: "Classic \<Rightarrow> string list" where
  "cleanCacheFlag c = (if cleanCache c then [''/cleancache''] else [])"

definition updateOnlyFlag :: "Classic \<Rightarrow> string list" where
  "updateOnlyFlag c = (if updateOnly c then [''/updateonly''] else [])"

definition freezeFlag :: "Classic \<Rightarrow> string list" where
  "freezeFlag c =
     (if outputFilename (freeze c) \<noteq> ''''
      then ''/freeze'' # locales (freeze c) @ [outputFilename (freeze c)] else [])"

definition listFlag :: "Classic \<Rightarrow> string list" where
  "listFlag c = (if list c then [''/list'', ''versions''] else [])"

definition attributeFlags :: "Classic \<Rightarrow> string list" where
  "attributeFlags c =
     localeFlag c @ proxyFlag c @ proxyAuthFlag c @ selectFlag c @ excludeFlag c
     @ remoteFlag c @ remoteAuthFlag c @ disableShortcutsFlag c
     @ disableAutoUpdateFlag c @ allUsersFlag c @ cachePathFlag c @ noCacheFlag c
     @ cleanCacheFlag c"

definition verbFlags :: "Classic \<Rightarrow> string list" where
  "verbFlags c = updateOnlyFlag c @ freezeFlag c @ listFlag c"

section \<open>Regular expressions, as Go's \<open>regexp\<close> package matches them\<close>

text \<open>
  The three patterns are compiled by \<open>regexp.MustCompile\<close>, so they are matched with
  Go's semantics: the leftmost match, and among the matches that start there the one a
  backtracking matcher finds first (greedy operators try the longer alternative
  first). Without flags \<open>^\<close> holds only at the beginning of the text and \<open>$\<close> only at
  its end, \<open>.\<close> is any character but the line feed, and \<open>\s\<close> is one of tab, line feed,
  form feed, carriage return and space. The text is a byte string; the three patterns
  name only ASCII characters.
\<close>

definition LF :: char where
  "LF = CHR 0x0A"

definition CR :: char where
  "CR = CHR 0x0D"

datatype cls = Space | AnyNotNL | NoneOf "char list" | OneOf "char list"

fun cls_mem :: "cls \<Rightarrow> char \<Rightarrow> bool" where
  "cls_mem Space c = (c = CHR 0x09 \<or> c = LF \<or> c = CHR 0x0C \<or> c = CR \<or> c = CHR '' '')"
| "cls_mem AnyNotNL c = (c \<noteq> LF)"
| "cls_mem (NoneOf cs) c = (c \<notin> set cs)"
| "cls_mem (OneOf cs) c = (c \<in> set cs)"

datatype re =
    Eps
  | Lit char
  | Cls cls
  | BeginText
  | EndText
  | Cat re re
  | Opt re
  | Star re
  | Cap nat re

text \<open>
  A thread of the matcher: the offset reached in the text, the text still to be read,
  and the capture groups closed so far.
\<close>

record thread =
  pos :: nat
  rest :: string
  caps :: "nat \<rightharpoonup> string"

text \<open>
  \<open>m r t\<close> lists the threads that leave \<open>r\<close> when \<open>t\<close> enters it, in the order of
  preference. An iteration of a star that reads nothing is not repeated.
\<close>

function m :: "re \<Rightarrow> thread \<Rightarrow> thread list" where
  "m Eps t = [t]"
| "m (Lit c) t =
     (case rest t of
        [] \<Rightarrow> []
      | x # xs \<Rightarrow> if x = c then [t\<lparr> pos := pos t + 1, rest := xs \<rparr>] else [])"
| "m (Cls k) t =
     (case rest t of
        [] \<Rightarrow> []
      | x # xs \<Rightarrow> if cls_mem k x then [t\<lparr> pos := pos t + 1, rest := xs \<rparr>] else [])"
| "m BeginText t = (if pos t = 0 then [t] else [])"
| "m EndText t = (if rest t = [] then [t] else [])"
| "m (Cat a b) t = concat (map (m b) (m a t))"
| "m (Opt a) t = m a t @ [t]"
| "m (Star a) t =
     concat (map (\<lambda>t'. if length (rest t') < length (rest t) then m (Star a) t' else [])
                 (m a t)) @ [t]"
| "m (Cap n a) t =
     map (\<lambda>t'. t'\<lparr> caps := (caps t')(n \<mapsto> take (pos t' - pos t) (rest t)) \<rparr>) (m a t)"
  by pat_completeness auto
termination
  by (relation "inv_image (less_than <*lex*> less_than) (\<lambda>(r, t). (size r, length (rest t)))")
     auto

definition Plus :: "re \<Rightarrow> re" where
  "Plus a = Cat a (Star a)"

fun seq :: "re list \<Rightarrow> re" where
  "seq [] = Eps"
| "seq [r] = r"
| "seq (r # rs) = Cat r (seq rs)"

definition thread0 :: "string \<Rightarrow> nat \<Rightarrow> thread" where
  "thread0 s i = \<lparr> pos = i, rest = drop i s, caps = Map.empty \<rparr>"

fun firstMatch :: "re \<Rightarrow> string \<Rightarrow> nat list \<Rightarrow> (nat \<times> thread) option" where
  "firstMatch r s [] = None"
| "firstMatch r s (i # is) =
     (case m r (thread0 s i) of [] \<Rightarrow> firstMatch r s is | t # _ \<Rightarrow> Some (i, t))"

definition group :: "thread \<Rightarrow> nat \<Rightarrow> string" where
  "group t n = (case caps t n of None \<Rightarrow> '''' | Some g \<Rightarrow> g)"

text \<open>
  \<open>FindStringSubmatch\<close> returns nil when the pattern matches nowhere, and otherwise
  the matched text followed by the text of each group, empty for a group that took no
  part in the match. Each of the three patterns has three groups.
\<close>

definition FindStringSubmatch :: "re \<Rightarrow> string \<Rightarrow> string list" where
  "FindStringSubmatch r s =
     (case firstMatch r s [0 ..< length s + 1] of
        None \<Rightarrow> []
      | Some (i, t) \<Rightarrow> take (pos t - i) (drop i s) # map (group t) [1 ..< 4])"

subsection \<open>The three patterns\<close>

definition sp :: re where
  "sp = Cls Space"

text \<open>\<^verbatim>\<open>^\s*(?P<app>[^:\r\n]+)\s+:\s+(?P<status>[^\r\n\(\)]+)(?:\s+\((?P<reason>.+)\))?$\<close>\<close>

definition statusMatch :: re where
  "statusMatch =
     seq [BeginText, Star sp,
          Cap 1 (Plus (Cls (NoneOf [CHR '':'', CR, LF]))),
          Plus sp, Lit CHR '':'', Plus sp,
          Cap 2 (Plus (Cls (NoneOf [CR, LF, CHR ''('', CHR '')'']))),
          Opt (seq [Plus sp, Lit CHR ''('', Cap 3 (Plus (Cls AnyNotNL)), Lit CHR '')'']),
          EndText]"

text \<open>\<^verbatim>\<open>^\s*(?P<app>[^:\r\n]+)\s+:\s+(?P<type>[\*\(])?(?P<version>[^\r\n\(\)]+)\)?$\<close>\<close>

definition versionMatch :: re where
  "versionMatch =
     seq [BeginText, Star sp,
          Cap 1 (Plus (Cls (NoneOf [CHR '':'', CR, LF]))),
          Plus sp, Lit CHR '':'', Plus sp,
          Opt (Cap 2 (Cls (OneOf [CHR ''*'', CHR ''('']))),
          Cap 3 (Plus (Cls (NoneOf [CR, LF, CHR ''('', CHR '')'']))),
          Opt (Lit CHR '')''),
          EndText]"

text \<open>\<^verbatim>\<open>^\s*(?P<app>[^:\r\n]+)\s+:\s+(?P<status>[^\r\n\(\)\-]+)(?:\s+-\s+(?P<version>.+))?$\<close>\<close>

definition auditMatch :: re where
  "auditMatch =
     seq [BeginText, Star sp,
          Cap 1 (Plus (Cls (NoneOf [CHR '':'', CR, LF]))),
          Plus sp, Lit CHR '':'', Plus sp,
          Cap 2 (Plus (Cls (NoneOf [CR, LF, CHR ''('', CHR '')'', CHR ''-'']))),
          Opt (seq [Plus sp, Lit CHR ''-'', Plus sp, Cap 3 (Plus (Cls AnyNotNL))]),
          EndText]"

section \<open>The records and the conversion of a matched line\<close>

text \<open>
  The three Go structs share field names; a field here carries the initial of its
  struct where the name is taken (\<open>App_v\<close> is \<open>AppVersion.App\<close>, \<open>App_a\<close> is
  \<open>AppAudit.App\<close>). A field the composite literal leaves out is the zero value.
\<close>

record Status =
  App :: string
  Status :: string
  Reason :: string
  Version :: string

record AppVersion =
  App_v :: string
  Version_v :: string
  CurrentVersion :: bool
  AlternateVersion :: bool

record AppAudit =
  App_a :: string
  Version_a :: string
  Status_a :: string
  Installed :: bool

text \<open>
  The body of \<open>if m := pattern.FindStringSubmatch(line); len(m) > 0 { ... }\<close> in each
  operation: the record sent for the line, or none.
\<close>

definition statusRecord :: "string \<Rightarrow> Status option" where
  "statusRecord line =
     (let m = FindStringSubmatch statusMatch line
      in if length m > 0
         then Some \<lparr> App = m ! 1, Status = m ! 2, Reason = m ! 3, Version = '''' \<rparr>
         else None)"

definition freezeRecord :: "string \<Rightarrow> Status option" where
  "freezeRecord line =
     (let m = FindStringSubmatch statusMatch line
      in if length m > 0
         then Some \<lparr> App = m ! 1, Status = '''', Reason = '''', Version = m ! 2 \<rparr>
         else None)"

definition versionRecord :: "string \<Rightarrow> AppVersion option" where
  "versionRecord line =
     (let m = FindStringSubmatch versionMatch line
      in if length m > 0
         then (let currentVersion = (m ! 2 = ''*'');
                   alternateVersion = (m ! 2 \<noteq> ''*'' \<and> m ! 2 = ''('')
               in Some \<lparr> App_v = m ! 1, Version_v = m ! 3,
                         CurrentVersion = currentVersion,
                         AlternateVersion = alternateVersion \<rparr>)
         else None)"

definition auditRecord :: "string \<Rightarrow> AppAudit option" where
  "auditRecord line =
     (let m = FindStringSubmatch auditMatch line
      in if length m > 0
         then (let installed = (length (m ! 3) > 0)
               in Some \<lparr> App_a = m ! 1, Version_a = m ! 3, Status_a = m ! 2,
                         Installed = installed \<rparr>)
         else None)"

section \<open>The subprocess and the five operations\<close>

text \<open>
  A Go \<open>error\<close> value: the sentinel \<open>io.EOF\<close>, an \<open>errors.New\<close> with its text, or any
  other error (a failed read, a failed start, an exit status), named by a string.
\<close>

datatype go_error = EOF | ErrorsNew string | OtherError string

text \<open>
  What the external executable does when it is started, as far as an operation can
  see it: whether \<open>start\<close> fails (\<open>StdoutPipe\<close>, \<open>StderrPipe\<close> or \<open>cmd.Start\<close>), the
  bytes of standard output and the error that ends them (\<open>io.EOF\<close> at the end of the
  stream, or a read failure), what \<open>ioutil.ReadAll(stderr)\<close> returns, and what
  \<open>cmd.Wait()\<close> returns.
\<close>

record process =
  startErr :: "go_error option"
  stdoutData :: string
  stdoutErr :: go_error
  stderrData :: string
  stderrErr :: "go_error option"
  waitErr :: "go_error option"

text \<open>
  What an operation does once the process runs, in order: each record it sends on the
  channel, the closing of the channel, the draining of standard error, and each call
  of \<open>cmd.Wait\<close>. The channel is taken to be open, with a receiver for every record.
\<close>

datatype 'r event = Send 'r | Close | ReadAllStderr | Wait

subsection \<open>\<open>bufio.Reader.ReadString\<close>\<close>

text \<open>
  The reader over the standard-output pipe: the bytes not yet read, and the error the
  pipe returns after them.
\<close>

record reader =
  pending :: string
  failure :: go_error

text \<open>
  \<open>cutLine\<close> splits a text after its first line feed. \<open>ReadString\<close> returns the bytes
  up to and including the delimiter with a nil error; when the input ends before a
  delimiter, it returns the bytes read so far together with the error.
\<close>

fun cutLine :: "string \<Rightarrow> (string \<times> string) option" where
  "cutLine [] = None"
| "cutLine (x # xs) =
     (if x = LF then Some ([x], xs)
      else (case cutLine xs of None \<Rightarrow> None | Some (l, r) \<Rightarrow> Some (x # l, r)))"

definition ReadString :: "reader \<Rightarrow> (string \<times> go_error option) \<times> reader" where
  "ReadString b =
     (case cutLine (pending b) of
        Some (l, r) \<Rightarrow> ((l, None), b\<lparr> pending := r \<rparr>)
      | None \<Rightarrow> ((pending b, Some (failure b)), b\<lparr> pending := [] \<rparr>))"

lemma cutLine_shorter: "cutLine s = Some (l, r) \<Longrightarrow> length r < length s"
  by (induction s arbitrary: l r) (auto split: if_splits option.splits)

lemma ReadString_shorter:
  "ReadString b = ((l, None), b') \<Longrightarrow> length (pending b') < length (pending b)"
  by (auto simp: ReadString_def split: option.splits dest: cutLine_shorter)

subsection \<open>The read loop\<close>

text \<open>
  The \<open>for\<close> loop of every operation, with \<open>conv\<close> the conversion of a line into the
  record to send. The result is the error the loop returns from the operation, or
  \<open>None\<close> when it leaves by \<open>break\<close>, and the events of the loop.
\<close>

function readLoop :: "(string \<Rightarrow> 'r option) \<Rightarrow> reader \<Rightarrow> go_error option \<times> 'r event list" where
  "readLoop conv b =
     (case ReadString b of
        ((line, Some err), b') \<Rightarrow>
          if err = EOF then (None, [Close]) else (Some err, [])
      | ((line, None), b') \<Rightarrow>
          (let sent = (case conv line of Some r \<Rightarrow> [Send r] | None \<Rightarrow> []);
               (res, evs) = readLoop conv b'
           in (res, sent @ evs)))"
  by pat_completeness auto
termination
  by (relation "measure (\<lambda>(conv, b). length (pending b))")
     (auto dest: ReadString_shorter [OF sym])

declare readLoop.simps [simp del]

subsection \<open>\<open>start\<close> and the body shared by the operations\<close>

text \<open>
  \<open>exec\<close> is the system the operation runs on: the behaviour of the process that a
  path and an argument list start. \<open>start\<close> is the only place where the executable is
  launched: it hands \<open>exec\<close> the path of the configuration and the list that
  \<open>composeArgs\<close> returns, and gives back the error of the failed launch or the
  running process.
\<close>

definition start :: "(string \<Rightarrow> string list \<Rightarrow> process) \<Rightarrow> Classic \<Rightarrow> go_error + process" where
  "start exec c =
     (let args = composeArgs c;
          cmd = exec (path c) args
      in case startErr cmd of Some err \<Rightarrow> Inl err | None \<Rightarrow> Inr cmd)"

text \<open>
  After \<open>c.start()\<close> the five operations have the same text but for the pattern and
  the record: \<open>run\<close> is that text, applied to what \<open>c.start()\<close> returned. When the
  start failed the operation returns its error and nothing else happens.
  \<open>defer cmd.Wait()\<close> adds a last \<open>Wait\<close> on every return after a successful start;
  its result is dropped.
\<close>

definition run ::
  "(string \<Rightarrow> 'r option) \<Rightarrow> go_error + process \<Rightarrow> go_error option \<times> 'r event list" where
  "run conv started =
     (case started of
        Inl err \<Rightarrow> (Some err, [])
      | Inr cmd \<Rightarrow>
          (case readLoop conv \<lparr> pending = stdoutData cmd, failure = stdoutErr cmd \<rparr> of
             (Some err, evs) \<Rightarrow> (Some err, evs @ [Wait])
           | (None, evs) \<Rightarrow>
               (let stderrResult =
                      (if stderrErr cmd = None
                       then (if length (stderrData cmd) > 0
                             then Some (ErrorsNew (stderrData cmd)) else None)
                       else None);
                    evs = evs @ [ReadAllStderr, Wait]
                in case waitErr cmd of
                     Some err \<Rightarrow> (Some err, evs @ [Wait])
                   | None \<Rightarrow>
                       if stderrResult \<noteq> None then (stderrResult, evs @ [Wait])
                       else (None, evs @ [Wait]))))"

definition UpdateOnly ::
  "(string \<Rightarrow> string list \<Rightarrow> process) \<Rightarrow> Classic \<Rightarrow> go_error option \<times> Status event list" where
  "UpdateOnly exec c = run statusRecord (start exec (c\<lparr> updateOnly := True \<rparr>))"

definition Uninstall ::
  "(string \<Rightarrow> string list \<Rightarrow> process) \<Rightarrow> Classic \<Rightarrow> go_error option \<times> Status event list" where
  "Uninstall exec c = run statusRecord (start exec (c\<lparr> uninstall := True \<rparr>))"

definition Freeze ::
  "(string \<Rightarrow> string list \<Rightarrow> process) \<Rightarrow> Classic \<Rightarrow> string \<Rightarrow> string list
     \<Rightarrow> go_error option \<times> Status event list" where
  "Freeze exec c output locs =
     run freezeRecord
       (start exec (c\<lparr> freeze := \<lparr> outputFilename = output, locales = locs \<rparr> \<rparr>))"

definition List ::
  "(string \<Rightarrow> string list \<Rightarrow> process) \<Rightarrow> Classic \<Rightarrow> go_error option \<times> AppVersion event list" where
  "List exec c = run versionRecord (start exec (c\<lparr> list := True \<rparr>))"

definition Audit ::
  "(string \<Rightarrow> string list \<Rightarrow> process) \<Rightarrow> Classic \<Rightarrow> go_error option \<times> AppAudit event list" where
  "Audit exec c = run auditRecord (start exec (c\<lparr> list := True \<rparr>))"

section \<open>Notions used to reason about the read loop and the patterns\<close>

subsection \<open>The lines the loop hands to a pattern\<close>

text \<open>
  The terminated lines of a text, each with its line feed, in order. What follows the
  last line feed is not among them.
\<close>

function completeLines :: "string \<Rightarrow> string list" where
  "completeLines s =
     (case cutLine s of None \<Rightarrow> [] | Some (l, r) \<Rightarrow> l # completeLines r)"
  by pat_completeness auto
termination
  by (relation "measure length") (auto dest: cutLine_shorter)

declare completeLines.simps [simp del]

subsection \<open>What an expression can read last\<close>

text \<open>
  \<open>solid r\<close>: every match of \<open>r\<close> reads at least one character, and the last character
  it reads is not a line feed. \<open>soft r\<close>: a match of \<open>r\<close> reads nothing, or the last
  character it reads is not a line feed. \<open>final r\<close>: a match of \<open>r\<close> ends at the end
  of the text. All three are decided on the syntax, and are sufficient conditions.
\<close>

fun soft :: "re \<Rightarrow> bool" and solid :: "re \<Rightarrow> bool" where
  "soft Eps = True"
| "soft (Lit c) = (c \<noteq> LF)"
| "soft (Cls k) = (\<not> cls_mem k LF)"
| "soft BeginText = True"
| "soft EndText = True"
| "soft (Cat a b) = (solid b \<or> (soft a \<and> soft b))"
| "soft (Opt a) = soft a"
| "soft (Star a) = soft a"
| "soft (Cap n a) = soft a"
| "solid Eps = False"
| "solid (Lit c) = (c \<noteq> LF)"
| "solid (Cls k) = (\<not> cls_mem k LF)"
| "solid BeginText = False"
| "solid EndText = False"
| "solid (Cat a b) = (solid b \<or> (solid a \<and> soft b))"
| "solid (Opt a) = False"
| "solid (Star a) = False"
| "solid (Cap n a) = solid a"

fun final :: "re \<Rightarrow> bool" where
  "final EndText = True"
| "final (Cat a b) = final b"
| "final (Cap n a) = final a"
| "final _ = False"

definition readsSoft :: "thread \<Rightarrow> thread \<Rightarrow> bool" where
  "readsSoft t t' \<longleftrightarrow> (\<exists>u. rest t = u @ rest t' \<and> (u = [] \<or> last u \<noteq> LF))"

definition readsSolid :: "thread \<Rightarrow> thread \<Rightarrow> bool" where
  "readsSolid t t' \<longleftrightarrow> (\<exists>u. rest t = u @ rest t' \<and> u \<noteq> [] \<and> last u \<noteq> LF)"

subsection \<open>What a group can hold\<close>

text \<open>
  \<open>avoids c r\<close>: no match of \<open>r\<close> reads the character \<open>c\<close>. \<open>groupAvoids n c r\<close>: every
  group numbered \<open>n\<close> in \<open>r\<close> encloses an expression that avoids \<open>c\<close>. Both are decided
  on the syntax.
\<close>

fun avoids :: "char \<Rightarrow> re \<Rightarrow> bool" where
  "avoids c Eps = True"
| "avoids c (Lit x) = (x \<noteq> c)"
| "avoids c (Cls k) = (\<not> cls_mem k c)"
| "avoids c BeginText = True"
| "avoids c EndText = True"
| "avoids c (Cat a b) = (avoids c a \<and> avoids c b)"
| "avoids c (Opt a) = avoids c a"
| "avoids c (Star a) = avoids c a"
| "avoids c (Cap n a) = avoids c a"

fun groupAvoids :: "nat \<Rightarrow> char \<Rightarrow> re \<Rightarrow> bool" where
  "groupAvoids n c (Cat a b) = (groupAvoids n c a \<and> groupAvoids n c b)"
| "groupAvoids n c (Opt a) = groupAvoids n c a"
| "groupAvoids n c (Star a) = groupAvoids n c a"
| "groupAvoids n c (Cap k a) = ((k = n \<longrightarrow> avoids c a) \<and> groupAvoids n c a)"
| "groupAvoids n c _ = True"

section \<open>Concrete inputs\<close>

text \<open>
  A configuration with every option set, built with the setters; the verb fields are
  set the way the operations set them on their own copy.
\<close>

definition exampleConfig :: Classic where
  "exampleConfig =
     (let c = newClassic ''NinitePro.exe'';
          c = Locale c ''en'';
          c = Proxy c ''proxy.local'' 8080;
          c = ProxyAuth c ''u'' ''p'';
          c = Select c [''Chrome'', ''7-Zip''];
          c = Exclude c [''Java''];
          c = Remote c [''pc1'', ''file:hosts.txt''];
          c = RemoteAuth c ''admin'' ''secret'';
          c = DisableShortcuts c;
          c = DisableAutoUpdate c;
          c = AllUsers c;
          c = CachePath c ''C:/cache'';
          c = NoCache c;
          c = CleanCache c
      in c\<lparr> updateOnly := True,
            freeze := \<lparr> outputFilename = ''out.exe'', locales = [''de''] \<rparr>,
            list := True \<rparr>)"

text \<open>A process that starts, prints nothing on either stream and exits cleanly.\<close>

definition quietProcess :: process where
  "quietProcess =
     \<lparr> startErr = None, stdoutData = '''', stdoutErr = EOF, stderrData = '''',
       stderrErr = None, waitErr = None \<rparr>"


text \<open>
  A system on which every program starts, prints its arguments on standard error,
  each followed by a space, and exits cleanly.
\<close>

definition argsOnStderr :: "string \<Rightarrow> string list \<Rightarrow> process" where
  "argsOnStderr p a = quietProcess\<lparr> stderrData := concat (map (\<lambda>x. x @ '' '') a) \<rparr>"

text \<open>A process that prints one status line, terminated by a line feed, and exits cleanly.\<close>

definition oneLineProcess :: process where
  "oneLineProcess = quietProcess\<lparr> stdoutData := ''App Name : Installed'' @ [LF] \<rparr>"

text \<open>The same output without the line feed: the stream ends after the last letter.\<close>

definition unterminatedProcess :: process where
  "unterminatedProcess = quietProcess\<lparr> stdoutData := ''App Name : Installed'' \<rparr>"

text \<open>
  A process that prints nothing on standard output, writes a message on standard
  error and exits with a failure status.
\<close>

definition failedProcess :: process where
  "failedProcess =
     quietProcess\<lparr> stderrData := ''boom'', waitErr := Some (OtherError ''exit status 1'') \<rparr>"

text \<open>A process that exits cleanly after writing a message on standard error.\<close>

definition noisyProcess :: process where
  "noisyProcess = quietProcess\<lparr> stderrData := ''boom'' \<rparr>"

text \<open>
  A process whose standard output fails after one complete line, with an error that is
  not the end of the stream.
\<close>

definition brokenPipeProcess :: process where
  "brokenPipeProcess =
     quietProcess\<lparr> stdoutData := ''App Name : Installed'' @ [LF],
                    stdoutErr := OtherError ''read |0: file already closed'' \<rparr>"
section \<open>Properties of the argument list\<close>

lemmas flag_defs =
  silentFlag_def localeFlag_def proxyFlag_def proxyAuthFlag_def selectFlag_def
  excludeFlag_def remoteFlag_def remoteAuthFlag_def disableShortcutsFlag_def
  disableAutoUpdateFlag_def allUsersFlag_def cachePathFlag_def noCacheFlag_def
  cleanCacheFlag_def updateOnlyFlag_def freezeFlag_def listFlag_def

lemma if_append_right: "(if b then xs @ ys else xs) = xs @ (if b then ys else [])"
  by simp

lemma if_nonempty_self: "(if xs \<noteq> [] then xs else []) = xs"
  by simp

lemma composeArgs_segments:
  "composeArgs c = silentFlag @ attributeFlags c @ verbFlags c"
  unfolding composeArgs_def attributeFlags_def verbFlags_def flag_defs
  by (simp only: Let_def if_append_right if_nonempty_self length_greater_0_conv
        append_assoc append.simps append_Nil2)

lemma Itoa_8080: "Itoa 8080 = ''8080''"
  by (simp add: Itoa_def digits.simps)

lemmas setter_defs =
  newClassic_def zeroClassic_def Locale_def Proxy_def ProxyAuth_def Select_def Exclude_def
  Remote_def RemoteAuth_def DisableShortcuts_def DisableAutoUpdate_def AllUsers_def
  CachePath_def NoCache_def CleanCache_def

text \<open>
  Claim C1. For every configuration the argument list is the silent-mode flag (with
  its operand \<open>.\<close>), then the flags of the options that are set, in the fixed order
  locale, proxy, proxy credentials, selected apps, excluded apps, remote targets,
  remote credentials, disable-shortcuts, disable-auto-update, all-users, cache path,
  no-cache, clean-cache, and then the verb flags update-only, freeze (with its locales
  and its output file name) and list, whichever options are set. The proxy flag and
  its two values are there exactly when the server is not empty and the port is not
  zero.
\<close>

theorem composeArgs_fixed_order:
  "composeArgs c =
     [''/silent'', ''.''] @ localeFlag c @ proxyFlag c @ proxyAuthFlag c @ selectFlag c
     @ excludeFlag c @ remoteFlag c @ remoteAuthFlag c @ disableShortcutsFlag c
     @ disableAutoUpdateFlag c @ allUsersFlag c @ cachePathFlag c @ noCacheFlag c
     @ cleanCacheFlag c @ updateOnlyFlag c @ freezeFlag c @ listFlag c
   \<and> (proxyFlag c = [''/proxy'', server (proxy c), Itoa (port (proxy c))])
       = (server (proxy c) \<noteq> '''' \<and> port (proxy c) \<noteq> 0)
   \<and> (proxyFlag c = []) = (server (proxy c) = '''' \<or> port (proxy c) = 0)"
proof -
  have "composeArgs c = silentFlag @ attributeFlags c @ verbFlags c"
    by (rule composeArgs_segments)
  then show ?thesis
    by (simp add: silentFlag_def attributeFlags_def verbFlags_def proxyFlag_def)
qed

theorem composeArgs_fixed_order_witness:
  "composeArgs exampleConfig =
     [''/silent'', ''.'', ''/locale'', ''en'', ''/proxy'', ''proxy.local'', ''8080'',
      ''/proxyauth'', ''u'', ''p'', ''/select'', ''Chrome'', ''7-Zip'', ''/exclude'', ''Java'',
      ''/remote'', ''pc1'', ''file:hosts.txt'', ''/remoteauth'', ''admin'', ''secret'',
      ''/disableshortcuts'', ''/disableautoupdate'', ''/allusers'', ''/cachepath'', ''C:/cache'',
      ''/nocache'', ''/cleancache'', ''/updateonly'', ''/freeze'', ''de'', ''out.exe'',
      ''/list'', ''versions'']"
  using composeArgs_fixed_order [of exampleConfig]
  by (simp add: exampleConfig_def setter_defs flag_defs Itoa_8080)

subsection \<open>The uninstall field and the verb fields\<close>

lemma built_no_verb:
  "built c \<Longrightarrow> \<not> updateOnly c \<and> outputFilename (freeze c) = '''' \<and> \<not> list c"
  by (induction rule: built.induct) (simp_all add: setter_defs)

lemma flags_uninstall:
  "localeFlag (c\<lparr> uninstall := b \<rparr>) = localeFlag c"
  "proxyFlag (c\<lparr> uninstall := b \<rparr>) = proxyFlag c"
  "proxyAuthFlag (c\<lparr> uninstall := b \<rparr>) = proxyAuthFlag c"
  "selectFlag (c\<lparr> uninstall := b \<rparr>) = selectFlag c"
  "excludeFlag (c\<lparr> uninstall := b \<rparr>) = excludeFlag c"
  "remoteFlag (c\<lparr> uninstall := b \<rparr>) = remoteFlag c"
  "remoteAuthFlag (c\<lparr> uninstall := b \<rparr>) = remoteAuthFlag c"
  "disableShortcutsFlag (c\<lparr> uninstall := b \<rparr>) = disableShortcutsFlag c"
  "disableAutoUpdateFlag (c\<lparr> uninstall := b \<rparr>) = disableAutoUpdateFlag c"
  "allUsersFlag (c\<lparr> uninstall := b \<rparr>) = allUsersFlag c"
  "cachePathFlag (c\<lparr> uninstall := b \<rparr>) = cachePathFlag c"
  "noCacheFlag (c\<lparr> uninstall := b \<rparr>) = noCacheFlag c"
  "cleanCacheFlag (c\<lparr> uninstall := b \<rparr>) = cleanCacheFlag c"
  "updateOnlyFlag (c\<lparr> uninstall := b \<rparr>) = updateOnlyFlag c"
  "freezeFlag (c\<lparr> uninstall := b \<rparr>) = freezeFlag c"
  "listFlag (c\<lparr> uninstall := b \<rparr>) = listFlag c"
  by (simp_all add: flag_defs)

lemma composeArgs_uninstall: "composeArgs (c\<lparr> uninstall := b \<rparr>) = composeArgs c"
  by (simp only: composeArgs_segments attributeFlags_def verbFlags_def flags_uninstall)

lemma built_composeArgs:
  assumes "built c"
  shows "composeArgs c = [''/silent'', ''.''] @ attributeFlags c"
proof -
  have "verbFlags c = []"
    using built_no_verb [OF assms]
    by (simp add: verbFlags_def updateOnlyFlag_def freezeFlag_def listFlag_def)
  then show ?thesis
    by (simp add: composeArgs_segments silentFlag_def)
qed

subsection \<open>\<open>Prefer\<close>\<close>

text \<open>
  Claim C10. \<open>Prefer\<close> panics with the message \<open>Unimplemented\<close> on every \<open>Classic\<close>
  value and never returns a configuration.
\<close>

theorem Prefer_panics:
  "Prefer c = Inl (Panic ''Unimplemented'') \<and> (\<nexists>c'. Prefer c = Inr c')"
  by (simp add: Prefer_def)

section \<open>Properties of the matcher\<close>

subsection \<open>What a match reads\<close>

declare m.simps(8) [simp del]

lemma set_m_Star:
  "set (m (Star a) t) =
     insert t (\<Union>t1 \<in> {t1 \<in> set (m a t). length (rest t1) < length (rest t)}. set (m (Star a) t1))"
  by (subst m.simps(8)) auto

lemma m_Lit_step:
  "t' \<in> set (m (Lit c) t) \<Longrightarrow> rest t = c # rest t' \<and> pos t' = pos t + 1 \<and> caps t' = caps t"
  by (cases "rest t") (auto split: if_splits)

lemma m_Cls_step:
  "t' \<in> set (m (Cls k) t) \<Longrightarrow>
     \<exists>x. cls_mem k x \<and> rest t = x # rest t' \<and> pos t' = pos t + 1 \<and> caps t' = caps t"
  by (cases "rest t") (auto split: if_splits)

lemma m_suffix:
  "t' \<in> set (m r t) \<Longrightarrow> \<exists>u. rest t = u @ rest t' \<and> pos t' = pos t + length u"
proof (induction r t arbitrary: t' rule: m.induct)
  case (1 t)
  then show ?case by simp
next
  case (2 c t)
  from m_Lit_step [OF "2.prems"] have "rest t = [c] @ rest t' \<and> pos t' = pos t + length [c]"
    by simp
  then show ?case by blast
next
  case (3 k t)
  from m_Cls_step [OF "3.prems"] obtain x where "rest t = [x] @ rest t' \<and> pos t' = pos t + length [x]"
    by auto
  then show ?case by blast
next
  case (4 t)
  then show ?case by (simp split: if_splits)
next
  case (5 t)
  then show ?case by (simp split: if_splits)
next
  case (6 a b t)
  from "6.prems" obtain t1 where t1: "t1 \<in> set (m a t)" and t': "t' \<in> set (m b t1)"
    by auto
  from "6.IH"(1) [OF t1] obtain u1 where u1: "rest t = u1 @ rest t1" "pos t1 = pos t + length u1"
    by blast
  from "6.IH"(2) [OF t1 t'] obtain u2 where u2: "rest t1 = u2 @ rest t'" "pos t' = pos t1 + length u2"
    by blast
  from u1 u2 have "rest t = (u1 @ u2) @ rest t' \<and> pos t' = pos t + length (u1 @ u2)"
    by simp
  then show ?case by blast
next
  case (7 a t)
  from "7.prems" have "t' \<in> set (m a t) \<or> t' = t" by auto
  then show ?case
  proof
    assume "t' \<in> set (m a t)"
    then show ?thesis by (rule "7.IH")
  next
    assume "t' = t"
    then show ?thesis by simp
  qed
next
  case (8 a t)
  from "8.prems" consider "t' = t"
    | t1 where "t1 \<in> set (m a t)" "length (rest t1) < length (rest t)" "t' \<in> set (m (Star a) t1)"
    by (subst (asm) set_m_Star) auto
  then show ?case
  proof cases
    case 1
    then show ?thesis by simp
  next
    case 2
    from "8.IH"(1) [OF 2(1)] obtain u1 where u1: "rest t = u1 @ rest t1" "pos t1 = pos t + length u1"
      by blast
    from "8.IH"(2) [OF 2(1) 2(2) 2(3)] obtain u2 where u2: "rest t1 = u2 @ rest t'" "pos t' = pos t1 + length u2"
      by blast
    from u1 u2 have "rest t = (u1 @ u2) @ rest t' \<and> pos t' = pos t + length (u1 @ u2)"
      by simp
    then show ?thesis by blast
  qed
next
  case (9 n a t)
  from "9.prems" obtain t1 where t1: "t1 \<in> set (m a t)"
    and t': "t' = t1\<lparr> caps := (caps t1)(n \<mapsto> take (pos t1 - pos t) (rest t)) \<rparr>"
    by auto
  from "9.IH" [OF t1] show ?case by (simp add: t')
qed

subsection \<open>No pattern matches a text that ends with a line feed\<close>

lemma readsSolid_soft: "readsSolid t t' \<Longrightarrow> readsSoft t t'"
  by (auto simp: readsSolid_def readsSoft_def)

lemma readsSoft_refl: "readsSoft t t"
  by (simp add: readsSoft_def)

lemma readsSoft_trans: "readsSoft t t1 \<Longrightarrow> readsSoft t1 t' \<Longrightarrow> readsSoft t t'"
proof -
  assume "readsSoft t t1" and "readsSoft t1 t'"
  then obtain u1 u2 where u1: "rest t = u1 @ rest t1" "u1 = [] \<or> last u1 \<noteq> LF"
    and u2: "rest t1 = u2 @ rest t'" "u2 = [] \<or> last u2 \<noteq> LF"
    by (auto simp: readsSoft_def)
  have "rest t = (u1 @ u2) @ rest t'" using u1 u2 by simp
  moreover have "u1 @ u2 = [] \<or> last (u1 @ u2) \<noteq> LF"
    using u1(2) u2(2) by (cases "u2 = []") auto
  ultimately show ?thesis unfolding readsSoft_def by blast
qed

lemma readsSolid_soft_trans: "readsSolid t t1 \<Longrightarrow> readsSoft t1 t' \<Longrightarrow> readsSolid t t'"
proof -
  assume "readsSolid t t1" and "readsSoft t1 t'"
  then obtain u1 u2 where u1: "rest t = u1 @ rest t1" "u1 \<noteq> []" "last u1 \<noteq> LF"
    and u2: "rest t1 = u2 @ rest t'" "u2 = [] \<or> last u2 \<noteq> LF"
    by (auto simp: readsSoft_def readsSolid_def)
  have "rest t = (u1 @ u2) @ rest t'" using u1 u2 by simp
  moreover have "u1 @ u2 \<noteq> [] \<and> last (u1 @ u2) \<noteq> LF"
    using u1(2,3) u2(2) by (cases "u2 = []") auto
  ultimately show ?thesis unfolding readsSolid_def by blast
qed

lemma suffix_solid_trans:
  assumes "\<exists>u. rest t = u @ rest t1" and "readsSolid t1 t'"
  shows "readsSolid t t'"
proof -
  from assms obtain u1 u2 where u1: "rest t = u1 @ rest t1"
    and u2: "rest t1 = u2 @ rest t'" "u2 \<noteq> []" "last u2 \<noteq> LF"
    by (auto simp: readsSolid_def)
  have "rest t = (u1 @ u2) @ rest t'" using u1 u2 by simp
  moreover have "u1 @ u2 \<noteq> [] \<and> last (u1 @ u2) \<noteq> LF"
    using u2(2,3) by auto
  ultimately show ?thesis unfolding readsSolid_def by blast
qed

lemma soft_solid_sound:
  "t' \<in> set (m r t) \<Longrightarrow> (soft r \<longrightarrow> readsSoft t t') \<and> (solid r \<longrightarrow> readsSolid t t')"
proof (induction r t arbitrary: t' rule: m.induct)
  case (1 t)
  then show ?case by (simp add: readsSoft_refl)
next
  case (2 c t)
  from m_Lit_step [OF "2.prems"] have "rest t = [c] @ rest t'" by simp
  then have "c \<noteq> LF \<Longrightarrow> readsSolid t t'"
    unfolding readsSolid_def by (intro exI [of _ "[c]"]) simp
  then show ?case by (auto dest: readsSolid_soft)
next
  case (3 k t)
  from m_Cls_step [OF "3.prems"] obtain x where x: "cls_mem k x" "rest t = [x] @ rest t'"
    by auto
  have "\<not> cls_mem k LF \<Longrightarrow> readsSolid t t'"
    unfolding readsSolid_def using x by (intro exI [of _ "[x]"]) auto
  then show ?case by (auto dest: readsSolid_soft)
next
  case (4 t)
  then show ?case by (simp add: readsSoft_refl split: if_splits)
next
  case (5 t)
  then show ?case by (simp add: readsSoft_refl split: if_splits)
next
  case (6 a b t)
  from "6.prems" obtain t1 where t1: "t1 \<in> set (m a t)" and t': "t' \<in> set (m b t1)"
    by auto
  note A = "6.IH"(1) [OF t1] and B = "6.IH"(2) [OF t1 t']
  from m_suffix [OF t1] have suf: "\<exists>u. rest t = u @ rest t1" by blast
  have solidb: "solid b \<Longrightarrow> readsSolid t t'"
    using B suf by (blast intro: suffix_solid_trans)
  have "soft (Cat a b) \<Longrightarrow> readsSoft t t'"
    using A B solidb by (auto intro: readsSoft_trans readsSolid_soft)
  moreover have "solid (Cat a b) \<Longrightarrow> readsSolid t t'"
    using A B solidb by (auto intro: readsSolid_soft_trans)
  ultimately show ?case by blast
next
  case (7 a t)
  from "7.prems" have "t' \<in> set (m a t) \<or> t' = t" by auto
  then show ?case
  proof
    assume "t' \<in> set (m a t)"
    from "7.IH" [OF this] show ?thesis by simp
  next
    assume "t' = t"
    then show ?thesis by (simp add: readsSoft_refl)
  qed
next
  case (8 a t)
  from "8.prems" consider "t' = t"
    | t1 where "t1 \<in> set (m a t)" "length (rest t1) < length (rest t)" "t' \<in> set (m (Star a) t1)"
    by (subst (asm) set_m_Star) auto
  then show ?case
  proof cases
    case 1
    then show ?thesis by (simp add: readsSoft_refl)
  next
    case 2
    note A = "8.IH"(1) [OF 2(1)] and B = "8.IH"(2) [OF 2(1) 2(2) 2(3)]
    have "soft a \<Longrightarrow> readsSoft t t'"
      using A B by (auto intro: readsSoft_trans)
    then show ?thesis by simp
  qed
next
  case (9 n a t)
  from "9.prems" obtain t1 where t1: "t1 \<in> set (m a t)"
    and t': "t' = t1\<lparr> caps := (caps t1)(n \<mapsto> take (pos t1 - pos t) (rest t)) \<rparr>"
    by auto
  from "9.IH" [OF t1] show ?case by (simp add: t' readsSoft_def readsSolid_def)
qed

lemma final_sound: "final r \<Longrightarrow> t' \<in> set (m r t) \<Longrightarrow> rest t' = []"
proof (induction r arbitrary: t t')
  case EndText
  then show ?case by (simp split: if_splits)
next
  case (Cat a b)
  then show ?case by auto
next
  case (Cap n a)
  then show ?case by auto
qed simp_all

lemma no_match_before_LF:
  assumes "solid r" and "final r" and "s \<noteq> []" and "last s = LF"
  shows "m r (thread0 s i) = []"
proof (rule ccontr)
  assume "m r (thread0 s i) \<noteq> []"
  then obtain t' where t': "t' \<in> set (m r (thread0 s i))"
    by (cases "m r (thread0 s i)") auto
  from final_sound [OF assms(2) t'] have e: "rest t' = []" .
  from soft_solid_sound [OF t'] assms(1) have "readsSolid (thread0 s i) t'" by simp
  then obtain u where u: "drop i s = u" "u \<noteq> []" "last u \<noteq> LF"
    by (auto simp: readsSolid_def thread0_def e)
  then have "i < length s" by auto
  then have "last (drop i s) = last s" by (simp add: last_drop)
  with u assms(4) show False by simp
qed

lemma firstMatch_none: "(\<And>i. m r (thread0 s i) = []) \<Longrightarrow> firstMatch r s is = None"
  by (induction "is") simp_all

lemma FindStringSubmatch_before_LF:
  assumes "solid r" and "final r" and "s \<noteq> []" and "last s = LF"
  shows "FindStringSubmatch r s = []"
  using firstMatch_none [of r s, OF no_match_before_LF [OF assms]]
  by (simp add: FindStringSubmatch_def)

lemma solid_patterns: "solid statusMatch" "solid versionMatch" "solid auditMatch"
  by (simp_all add: statusMatch_def versionMatch_def auditMatch_def Plus_def sp_def LF_def CR_def)

lemma final_patterns: "final statusMatch" "final versionMatch" "final auditMatch"
  by (simp_all add: statusMatch_def versionMatch_def auditMatch_def Plus_def sp_def)


subsection \<open>The threads of a match\<close>

lemma firstMatch_thread:
  "firstMatch r s is = Some (i, t) \<Longrightarrow> t \<in> set (m r (thread0 s i))"
  by (induction "is") (auto split: list.splits)

lemma FindStringSubmatch_groups:
  assumes "FindStringSubmatch r s \<noteq> []"
  obtains i t where "t \<in> set (m r (thread0 s i))"
    and "FindStringSubmatch r s = take (pos t - i) (drop i s) # map (group t) [1 ..< 4]"
proof (cases "firstMatch r s [0 ..< length s + 1]")
  case None
  with assms show ?thesis by (simp add: FindStringSubmatch_def)
next
  case (Some it)
  obtain i t where it: "it = (i, t)" by (cases it)
  from Some it have "t \<in> set (m r (thread0 s i))" by (auto dest: firstMatch_thread)
  moreover from Some it
  have "FindStringSubmatch r s = take (pos t - i) (drop i s) # map (group t) [1 ..< 4]"
    by (simp add: FindStringSubmatch_def)
  ultimately show ?thesis by (rule that)
qed

lemma upt_1_4: "[1 ..< 4] = [1, 2, 3::nat]"
  by (simp add: upt_rec)

subsection \<open>A group holds characters of the text\<close>

lemma m_rest_subset: "t' \<in> set (m r t) \<Longrightarrow> set (rest t') \<subseteq> set (rest t)"
  using m_suffix [of t' r t] by auto

lemma caps_from_text:
  "t' \<in> set (m r t) \<Longrightarrow> set (rest t) \<subseteq> S \<Longrightarrow> (\<And>n g. caps t n = Some g \<Longrightarrow> set g \<subseteq> S)
     \<Longrightarrow> caps t' n = Some g \<Longrightarrow> set g \<subseteq> S"
proof (induction r t arbitrary: t' n g rule: m.induct)
  case (1 t)
  then show ?case by simp
next
  case (2 c t)
  from m_Lit_step [OF "2.prems"(1)] "2.prems"(4) have "caps t n = Some g" by simp
  then show ?case by (rule "2.prems"(3))
next
  case (3 k t)
  from m_Cls_step [OF "3.prems"(1)] "3.prems"(4) have "caps t n = Some g" by auto
  then show ?case by (rule "3.prems"(3))
next
  case (4 t)
  then show ?case by (simp split: if_splits)
next
  case (5 t)
  then show ?case by (simp split: if_splits)
next
  case (6 a b t)
  from "6.prems"(1) obtain t1 where t1: "t1 \<in> set (m a t)" and t': "t' \<in> set (m b t1)"
    by auto
  have r1: "set (rest t1) \<subseteq> S"
    using m_rest_subset [OF t1] "6.prems"(2) by blast
  have c1: "\<And>n g. caps t1 n = Some g \<Longrightarrow> set g \<subseteq> S"
    by (rule "6.IH"(1) [OF t1 "6.prems"(2,3)])
  show ?case
    by (rule "6.IH"(2) [OF t1 t' r1 c1 "6.prems"(4)])
next
  case (7 a t)
  from "7.prems"(1) have "t' \<in> set (m a t) \<or> t' = t" by auto
  then show ?case
  proof
    assume "t' \<in> set (m a t)"
    then show ?thesis by (rule "7.IH" [OF _ "7.prems"(2,3,4)])
  next
    assume "t' = t"
    with "7.prems"(3,4) show ?thesis by simp
  qed
next
  case (8 a t)
  from "8.prems"(1) consider "t' = t"
    | t1 where "t1 \<in> set (m a t)" "length (rest t1) < length (rest t)" "t' \<in> set (m (Star a) t1)"
    by (subst (asm) set_m_Star) auto
  then show ?case
  proof cases
    case 1
    with "8.prems"(3,4) show ?thesis by simp
  next
    case 2
    have r1: "set (rest t1) \<subseteq> S"
      using m_rest_subset [OF 2(1)] "8.prems"(2) by blast
    have c1: "\<And>n g. caps t1 n = Some g \<Longrightarrow> set g \<subseteq> S"
      by (rule "8.IH"(1) [OF 2(1) "8.prems"(2,3)])
    show ?thesis
      by (rule "8.IH"(2) [OF 2(1) 2(2) 2(3) r1 c1 "8.prems"(4)])
  qed
next
  case (9 k a t)
  from "9.prems"(1) obtain t1 where t1: "t1 \<in> set (m a t)"
    and t': "t' = t1\<lparr> caps := (caps t1)(k \<mapsto> take (pos t1 - pos t) (rest t)) \<rparr>"
    by auto
  have c1: "\<And>n g. caps t1 n = Some g \<Longrightarrow> set g \<subseteq> S"
    by (rule "9.IH" [OF t1 "9.prems"(2,3)])
  show ?case
  proof (cases "n = k")
    case True
    with "9.prems"(4) t' have "g = take (pos t1 - pos t) (rest t)" by simp
    then have "set g \<subseteq> set (rest t)" by (simp add: set_take_subset)
    with "9.prems"(2) show ?thesis by blast
  next
    case False
    with "9.prems"(4) t' have "caps t1 n = Some g" by simp
    then show ?thesis by (rule c1)
  qed
qed

lemma group_from_text:
  assumes "FindStringSubmatch r s \<noteq> []" and "1 \<le> n" and "n < 4"
  shows "set (FindStringSubmatch r s ! n) \<subseteq> set s"
proof -
  from assms(1) obtain i t where t: "t \<in> set (m r (thread0 s i))"
    and f: "FindStringSubmatch r s = take (pos t - i) (drop i s) # map (group t) [1 ..< 4]"
    by (rule FindStringSubmatch_groups)
  have "set g \<subseteq> set s" if "caps t k = Some g" for k g
    using t _ _ that
  proof (rule caps_from_text)
    show "set (rest (thread0 s i)) \<subseteq> set s"
      by (simp add: thread0_def set_drop_subset)
  qed (simp add: thread0_def)
  then have g: "set (group t k) \<subseteq> set s" for k
    by (cases "caps t k") (simp_all add: group_def)
  from assms(2,3) have "n = 1 \<or> n = 2 \<or> n = 3" by arith
  then have "FindStringSubmatch r s ! n = group t n"
    by (auto simp: f upt_1_4 numeral_2_eq_2 numeral_3_eq_3)
  then show ?thesis
    by (simp add: g)
qed

subsection \<open>A group holds only what its expression reads\<close>

lemma m_avoids:
  "t' \<in> set (m r t) \<Longrightarrow> avoids c r
     \<Longrightarrow> \<exists>u. rest t = u @ rest t' \<and> pos t' = pos t + length u \<and> c \<notin> set u"
proof (induction r t arbitrary: t' rule: m.induct)
  case (1 t)
  then show ?case by simp
next
  case (2 x t)
  from m_Lit_step [OF "2.prems"(1)] "2.prems"(2)
  have "rest t = [x] @ rest t' \<and> pos t' = pos t + length [x] \<and> c \<notin> set [x]"
    by simp
  then show ?case by blast
next
  case (3 k t)
  from m_Cls_step [OF "3.prems"(1)] "3.prems"(2) obtain x
    where "rest t = [x] @ rest t' \<and> pos t' = pos t + length [x] \<and> c \<notin> set [x]"
    by auto
  then show ?case by blast
next
  case (4 t)
  then show ?case by (simp split: if_splits)
next
  case (5 t)
  then show ?case by (simp split: if_splits)
next
  case (6 a b t)
  from "6.prems"(1) obtain t1 where t1: "t1 \<in> set (m a t)" and t': "t' \<in> set (m b t1)"
    by auto
  from "6.prems"(2) have a: "avoids c a" and b: "avoids c b" by simp_all
  from "6.IH"(1) [OF t1 a] obtain u1
    where u1: "rest t = u1 @ rest t1" "pos t1 = pos t + length u1" "c \<notin> set u1"
    by blast
  from "6.IH"(2) [OF t1 t' b] obtain u2
    where u2: "rest t1 = u2 @ rest t'" "pos t' = pos t1 + length u2" "c \<notin> set u2"
    by blast
  from u1 u2
  have "rest t = (u1 @ u2) @ rest t' \<and> pos t' = pos t + length (u1 @ u2) \<and> c \<notin> set (u1 @ u2)"
    by simp
  then show ?case by blast
next
  case (7 a t)
  from "7.prems"(1) have "t' \<in> set (m a t) \<or> t' = t" by auto
  then show ?case
  proof
    assume "t' \<in> set (m a t)"
    then show ?thesis using "7.prems"(2) by (intro "7.IH") simp_all
  next
    assume "t' = t"
    then show ?thesis by simp
  qed
next
  case (8 a t)
  from "8.prems"(2) have a: "avoids c a" by simp
  from "8.prems"(1) consider "t' = t"
    | t1 where "t1 \<in> set (m a t)" "length (rest t1) < length (rest t)" "t' \<in> set (m (Star a) t1)"
    by (subst (asm) set_m_Star) auto
  then show ?case
  proof cases
    case 1
    then show ?thesis by simp
  next
    case 2
    from "8.IH"(1) [OF 2(1) a] obtain u1
      where u1: "rest t = u1 @ rest t1" "pos t1 = pos t + length u1" "c \<notin> set u1"
      by blast
    from "8.IH"(2) [OF 2(1) 2(2) 2(3) "8.prems"(2)] obtain u2
      where u2: "rest t1 = u2 @ rest t'" "pos t' = pos t1 + length u2" "c \<notin> set u2"
      by blast
    from u1 u2
    have "rest t = (u1 @ u2) @ rest t' \<and> pos t' = pos t + length (u1 @ u2) \<and> c \<notin> set (u1 @ u2)"
      by simp
    then show ?thesis by blast
  qed
next
  case (9 n a t)
  from "9.prems"(1) obtain t1 where t1: "t1 \<in> set (m a t)"
    and t': "t' = t1\<lparr> caps := (caps t1)(n \<mapsto> take (pos t1 - pos t) (rest t)) \<rparr>"
    by auto
  from "9.prems"(2) have "avoids c a" by simp
  from "9.IH" [OF t1 this] show ?case by (simp add: t')
qed

lemma caps_avoid:
  "t' \<in> set (m r t) \<Longrightarrow> groupAvoids n c r \<Longrightarrow> (\<And>g. caps t n = Some g \<Longrightarrow> c \<notin> set g)
     \<Longrightarrow> caps t' n = Some g \<Longrightarrow> c \<notin> set g"
proof (induction r t arbitrary: t' g rule: m.induct)
  case (1 t)
  then show ?case by simp
next
  case (2 x t)
  from m_Lit_step [OF "2.prems"(1)] "2.prems"(4) have "caps t n = Some g" by simp
  then show ?case by (rule "2.prems"(3))
next
  case (3 k t)
  from m_Cls_step [OF "3.prems"(1)] "3.prems"(4) have "caps t n = Some g" by auto
  then show ?case by (rule "3.prems"(3))
next
  case (4 t)
  then show ?case by (simp split: if_splits)
next
  case (5 t)
  then show ?case by (simp split: if_splits)
next
  case (6 a b t)
  from "6.prems"(1) obtain t1 where t1: "t1 \<in> set (m a t)" and t': "t' \<in> set (m b t1)"
    by auto
  from "6.prems"(2) have a: "groupAvoids n c a" and b: "groupAvoids n c b" by simp_all
  have c1: "\<And>g. caps t1 n = Some g \<Longrightarrow> c \<notin> set g"
    by (rule "6.IH"(1) [OF t1 a "6.prems"(3)])
  show ?case
    by (rule "6.IH"(2) [OF t1 t' b c1 "6.prems"(4)])
next
  case (7 a t)
  from "7.prems"(2) have a: "groupAvoids n c a" by simp
  from "7.prems"(1) have "t' \<in> set (m a t) \<or> t' = t" by auto
  then show ?case
  proof
    assume "t' \<in> set (m a t)"
    then show ?thesis by (rule "7.IH" [OF _ a "7.prems"(3,4)])
  next
    assume "t' = t"
    with "7.prems"(3,4) show ?thesis by simp
  qed
next
  case (8 a t)
  from "8.prems"(2) have a: "groupAvoids n c a" by simp
  from "8.prems"(1) consider "t' = t"
    | t1 where "t1 \<in> set (m a t)" "length (rest t1) < length (rest t)" "t' \<in> set (m (Star a) t1)"
    by (subst (asm) set_m_Star) auto
  then show ?case
  proof cases
    case 1
    with "8.prems"(3,4) show ?thesis by simp
  next
    case 2
    have c1: "\<And>g. caps t1 n = Some g \<Longrightarrow> c \<notin> set g"
      by (rule "8.IH"(1) [OF 2(1) a "8.prems"(3)])
    show ?thesis
      by (rule "8.IH"(2) [OF 2(1) 2(2) 2(3) "8.prems"(2) c1 "8.prems"(4)])
  qed
next
  case (9 k a t)
  from "9.prems"(1) obtain t1 where t1: "t1 \<in> set (m a t)"
    and t': "t' = t1\<lparr> caps := (caps t1)(k \<mapsto> take (pos t1 - pos t) (rest t)) \<rparr>"
    by auto
  from "9.prems"(2) have a: "groupAvoids n c a" and ka: "k = n \<Longrightarrow> avoids c a" by simp_all
  have c1: "\<And>g. caps t1 n = Some g \<Longrightarrow> c \<notin> set g"
    by (rule "9.IH" [OF t1 a "9.prems"(3)])
  show ?case
  proof (cases "k = n")
    case True
    from m_avoids [OF t1 ka [OF True]] obtain u
      where u: "rest t = u @ rest t1" "pos t1 = pos t + length u" "c \<notin> set u"
      by blast
    from "9.prems"(4) t' True have "g = take (pos t1 - pos t) (rest t)" by simp
    with u have "g = u" by simp
    with u(3) show ?thesis by simp
  next
    case False
    with "9.prems"(4) t' have "caps t1 n = Some g" by simp
    then show ?thesis by (rule c1)
  qed
qed

lemma group_avoids:
  assumes "FindStringSubmatch r s \<noteq> []" and "groupAvoids n c r" and "1 \<le> n" and "n < 4"
  shows "c \<notin> set (FindStringSubmatch r s ! n)"
proof -
  from assms(1) obtain i t where t: "t \<in> set (m r (thread0 s i))"
    and f: "FindStringSubmatch r s = take (pos t - i) (drop i s) # map (group t) [1 ..< 4]"
    by (rule FindStringSubmatch_groups)
  have "c \<notin> set g" if "caps t n = Some g" for g
    using t assms(2) _ that by (rule caps_avoid) (simp add: thread0_def)
  then have g: "c \<notin> set (group t n)"
    by (cases "caps t n") (simp_all add: group_def)
  from assms(3,4) have "n = 1 \<or> n = 2 \<or> n = 3" by arith
  then have "FindStringSubmatch r s ! n = group t n"
    by (auto simp: f upt_1_4 numeral_2_eq_2 numeral_3_eq_3)
  then show ?thesis
    by (simp add: g)
qed

lemma version_group_avoids:
  "groupAvoids 3 (CHR ''('') versionMatch" "groupAvoids 3 (CHR '')'') versionMatch"
  by (simp_all add: versionMatch_def Plus_def sp_def)

section \<open>The patterns on the lines of the specification\<close>

text \<open>
  The lines are given to \<open>FindStringSubmatch\<close> as the specification writes them, with
  no line terminator. The theorems of this section are about the pattern and the
  composite literal that follows it in the operation; which texts the read loop passes
  to the pattern is the subject of the next section.
\<close>

lemma status_plain:
  "FindStringSubmatch statusMatch ''App Name : Installed'' =
     [''App Name : Installed'', ''App Name'', ''Installed'', '''']"
  by code_simp

lemma status_reason:
  "FindStringSubmatch statusMatch ''App Name : Installed (forced)'' =
     [''App Name : Installed (forced)'', ''App Name'', ''Installed'', ''forced'']"
  by code_simp

lemma version_current:
  "FindStringSubmatch versionMatch ''App Name : *1.2.3'' =
     [''App Name : *1.2.3'', ''App Name'', ''*'', ''1.2.3'']"
  by code_simp

lemma version_alternate:
  "FindStringSubmatch versionMatch ''App Name : (2.0.0)'' =
     [''App Name : (2.0.0)'', ''App Name'', ''('', ''2.0.0'']"
  by code_simp

lemma version_plain:
  "FindStringSubmatch versionMatch ''App Name : 2.0.0'' =
     [''App Name : 2.0.0'', ''App Name'', '''', ''2.0.0'']"
  by code_simp

lemma audit_installed:
  "FindStringSubmatch auditMatch ''App Name : Installed - 1.2.3'' =
     [''App Name : Installed - 1.2.3'', ''App Name'', ''Installed'', ''1.2.3'']"
  by code_simp

lemma audit_missing:
  "FindStringSubmatch auditMatch ''App Name : Not Installed'' =
     [''App Name : Not Installed'', ''App Name'', ''Not Installed'', '''']"
  by code_simp

subsection \<open>The status pattern\<close>

text \<open>
  Claim C7. Under the status pattern the line \<open>App Name : Installed\<close> gives a \<open>Status\<close>
  record with \<open>Status = "Installed"\<close> and an empty \<open>Reason\<close>, and the line
  \<open>App Name : Installed (forced)\<close> gives \<open>Status = "Installed"\<close> and \<open>Reason = "forced"\<close>.
  In both records \<open>App\<close> is \<open>App Name\<close> and \<open>Version\<close>, which the operation leaves out,
  is empty.
\<close>

theorem status_lines_parse:
  "statusRecord ''App Name : Installed'' =
     Some \<lparr> App = ''App Name'', Status = ''Installed'', Reason = '''', Version = '''' \<rparr>
   \<and> statusRecord ''App Name : Installed (forced)'' =
     Some \<lparr> App = ''App Name'', Status = ''Installed'', Reason = ''forced'', Version = '''' \<rparr>"
  by (simp add: statusRecord_def status_plain status_reason)

subsection \<open>The audit pattern\<close>

text \<open>
  Claim C6. Under the audit pattern the line \<open>App Name : Installed - 1.2.3\<close> gives an
  \<open>AppAudit\<close> record with \<open>Installed = true\<close> and \<open>Version = "1.2.3"\<close>, and the line
  \<open>App Name : Not Installed\<close> gives \<open>Installed = false\<close> and an empty \<open>Version\<close>. For every
  line that matches, \<open>Version\<close> is the text of the version group, and \<open>Installed\<close> is
  true exactly when that text is not empty.
\<close>

theorem audit_lines_parse:
  "auditRecord ''App Name : Installed - 1.2.3'' =
     Some \<lparr> App_a = ''App Name'', Version_a = ''1.2.3'', Status_a = ''Installed'',
            Installed = True \<rparr>
   \<and> auditRecord ''App Name : Not Installed'' =
     Some \<lparr> App_a = ''App Name'', Version_a = '''', Status_a = ''Not Installed'',
            Installed = False \<rparr>
   \<and> (auditRecord line = Some r \<longrightarrow>
        Version_a r = FindStringSubmatch auditMatch line ! 3
        \<and> Installed r = (Version_a r \<noteq> ''''))"
  by (auto simp: auditRecord_def audit_installed audit_missing Let_def split: if_splits)

theorem audit_lines_parse_witness:
  "auditRecord ''App Name : Installed - 1.2.3'' =
     Some \<lparr> App_a = ''App Name'', Version_a = ''1.2.3'', Status_a = ''Installed'',
            Installed = True \<rparr>
   \<and> FindStringSubmatch auditMatch ''App Name : Installed - 1.2.3'' ! 3 = ''1.2.3''
   \<and> Installed \<lparr> App_a = ''App Name'', Version_a = ''1.2.3'', Status_a = ''Installed'',
                  Installed = True \<rparr>
       = (Version_a \<lparr> App_a = ''App Name'', Version_a = ''1.2.3'', Status_a = ''Installed'',
                      Installed = True \<rparr> \<noteq> '''')"
  using audit_lines_parse [of "''App Name : Installed - 1.2.3''"
      "\<lparr> App_a = ''App Name'', Version_a = ''1.2.3'', Status_a = ''Installed'',
         Installed = True \<rparr>"]
  by simp

subsection \<open>The version pattern\<close>

lemma versionRecord_fields:
  assumes "versionRecord line = Some r"
  shows "FindStringSubmatch versionMatch line \<noteq> []"
    and "Version_v r = FindStringSubmatch versionMatch line ! 3"
    and "CurrentVersion r = (FindStringSubmatch versionMatch line ! 2 = ''*'')"
    and "AlternateVersion r = (FindStringSubmatch versionMatch line ! 2 = ''('')"
  using assms by (auto simp: versionRecord_def Let_def split: if_splits)

text \<open>
  Claim C8. Under the version pattern the line \<open>App Name : *1.2.3\<close> gives an
  \<open>AppVersion\<close> record with \<open>Version = "1.2.3"\<close>, \<open>CurrentVersion = true\<close> and
  \<open>AlternateVersion = false\<close>. For every line that matches with no marker, both flags
  are false: this holds when the marker group is empty, and so whenever the line
  contains neither \<open>*\<close> nor \<open>(\<close>.
\<close>

theorem version_marker_flags:
  "versionRecord ''App Name : *1.2.3'' =
     Some \<lparr> App_v = ''App Name'', Version_v = ''1.2.3'', CurrentVersion = True,
            AlternateVersion = False \<rparr>
   \<and> (versionRecord line = Some r \<longrightarrow> FindStringSubmatch versionMatch line ! 2 = '''' \<longrightarrow>
        \<not> CurrentVersion r \<and> \<not> AlternateVersion r)
   \<and> (versionRecord line = Some r \<longrightarrow> CHR ''*'' \<notin> set line \<longrightarrow> CHR ''('' \<notin> set line \<longrightarrow>
        \<not> CurrentVersion r \<and> \<not> AlternateVersion r)"
proof (intro conjI impI)
  show "versionRecord ''App Name : *1.2.3'' =
     Some \<lparr> App_v = ''App Name'', Version_v = ''1.2.3'', CurrentVersion = True,
            AlternateVersion = False \<rparr>"
    by (simp add: versionRecord_def version_current)
next
  assume "versionRecord line = Some r" and "FindStringSubmatch versionMatch line ! 2 = ''''"
  then show "\<not> CurrentVersion r" and "\<not> AlternateVersion r"
    by (simp_all add: versionRecord_fields)
next
  assume r: "versionRecord line = Some r"
    and star: "CHR ''*'' \<notin> set line" and paren: "CHR ''('' \<notin> set line"
  have "set (FindStringSubmatch versionMatch line ! 2) \<subseteq> set line"
    by (rule group_from_text [OF versionRecord_fields(1) [OF r]]) simp_all
  with star paren have "FindStringSubmatch versionMatch line ! 2 \<noteq> ''*''"
    and "FindStringSubmatch versionMatch line ! 2 \<noteq> ''(''"
    by auto
  then show "\<not> CurrentVersion r" and "\<not> AlternateVersion r"
    by (simp_all add: versionRecord_fields [OF r])
qed

theorem version_marker_flags_witness:
  "versionRecord ''App Name : 2.0.0'' =
     Some \<lparr> App_v = ''App Name'', Version_v = ''2.0.0'', CurrentVersion = False,
            AlternateVersion = False \<rparr>
   \<and> FindStringSubmatch versionMatch ''App Name : 2.0.0'' ! 2 = ''''
   \<and> CHR ''*'' \<notin> set ''App Name : 2.0.0'' \<and> CHR ''('' \<notin> set ''App Name : 2.0.0''
   \<and> \<not> CurrentVersion \<lparr> App_v = ''App Name'', Version_v = ''2.0.0'', CurrentVersion = False,
                          AlternateVersion = False \<rparr>"
proof -
  have r: "versionRecord ''App Name : 2.0.0'' =
     Some \<lparr> App_v = ''App Name'', Version_v = ''2.0.0'', CurrentVersion = False,
            AlternateVersion = False \<rparr>"
    by (simp add: versionRecord_def version_plain)
  show ?thesis
    using r version_marker_flags [of "''App Name : 2.0.0''"
        "\<lparr> App_v = ''App Name'', Version_v = ''2.0.0'', CurrentVersion = False,
           AlternateVersion = False \<rparr>"]
    by (simp add: version_plain)
qed

text \<open>
  Claim C2 says that for the line \<open>App Name : (2.0.0)\<close> the record has
  \<open>Version = "2.0.0)"\<close>. The pattern reads the closing parenthesis with \<open>\)?\<close>, after the
  version group, whose class excludes both parentheses; the record has
  \<open>Version = "2.0.0"\<close>.
\<close>

theorem alternate_version_without_parenthesis:
  "map_option Version_v (versionRecord ''App Name : (2.0.0)'') = Some ''2.0.0''
   \<and> map_option Version_v (versionRecord ''App Name : (2.0.0)'') \<noteq> Some ''2.0.0)''"
  by (simp add: versionRecord_def version_alternate)

text \<open>
  Claim C2, amended. Under the version pattern the closing parenthesis of an
  alternate-marker line is read outside the version group: for the line
  \<open>App Name : (2.0.0)\<close> the record has \<open>Version = "2.0.0"\<close>, \<open>AlternateVersion = true\<close> and
  \<open>CurrentVersion = false\<close>, as for the current-marker line \<open>App Name : *1.2.3\<close> the
  record has \<open>Version = "1.2.3"\<close>; and for every line that matches, the version text
  contains neither \<open>(\<close> nor \<open>)\<close>.
\<close>

theorem version_text_has_no_parenthesis:
  "versionRecord ''App Name : (2.0.0)'' =
     Some \<lparr> App_v = ''App Name'', Version_v = ''2.0.0'', CurrentVersion = False,
            AlternateVersion = True \<rparr>
   \<and> map_option Version_v (versionRecord ''App Name : *1.2.3'') = Some ''1.2.3''
   \<and> (versionRecord line = Some r \<longrightarrow>
        CHR ''('' \<notin> set (Version_v r) \<and> CHR '')'' \<notin> set (Version_v r))"
proof (intro conjI impI)
  show "versionRecord ''App Name : (2.0.0)'' =
     Some \<lparr> App_v = ''App Name'', Version_v = ''2.0.0'', CurrentVersion = False,
            AlternateVersion = True \<rparr>"
    by (simp add: versionRecord_def version_alternate)
next
  show "map_option Version_v (versionRecord ''App Name : *1.2.3'') = Some ''1.2.3''"
    by (simp add: versionRecord_def version_current)
next
  assume r: "versionRecord line = Some r"
  show "CHR ''('' \<notin> set (Version_v r)"
    unfolding versionRecord_fields(2) [OF r]
    by (rule group_avoids [OF versionRecord_fields(1) [OF r] version_group_avoids(1)]) simp_all
next
  assume r: "versionRecord line = Some r"
  show "CHR '')'' \<notin> set (Version_v r)"
    unfolding versionRecord_fields(2) [OF r]
    by (rule group_avoids [OF versionRecord_fields(1) [OF r] version_group_avoids(2)]) simp_all
qed

theorem version_text_has_no_parenthesis_witness:
  "versionRecord ''App Name : (2.0.0)'' =
     Some \<lparr> App_v = ''App Name'', Version_v = ''2.0.0'', CurrentVersion = False,
            AlternateVersion = True \<rparr>
   \<and> CHR ''('' \<notin> set (Version_v \<lparr> App_v = ''App Name'', Version_v = ''2.0.0'',
                                     CurrentVersion = False, AlternateVersion = True \<rparr>)
   \<and> CHR '')'' \<notin> set (Version_v \<lparr> App_v = ''App Name'', Version_v = ''2.0.0'',
                                     CurrentVersion = False, AlternateVersion = True \<rparr>)"
  using version_text_has_no_parenthesis [of "''App Name : (2.0.0)''"
      "\<lparr> App_v = ''App Name'', Version_v = ''2.0.0'', CurrentVersion = False,
         AlternateVersion = True \<rparr>"]
  by simp

section \<open>Properties of the operations\<close>

subsection \<open>The read loop, line by line\<close>

lemma completeLines_Nil: "completeLines [] = []"
  by (subst completeLines.simps) simp

lemma completeLines_cut:
  "cutLine s = Some (l, r) \<Longrightarrow> completeLines s = l # completeLines r"
  by (subst completeLines.simps) simp

lemma completeLines_last: "cutLine s = None \<Longrightarrow> completeLines s = []"
  by (subst completeLines.simps) simp

lemma readLoop_lines:
  "readLoop conv b =
     (if failure b = EOF then None else Some (failure b),
      map Send (List.map_filter conv (completeLines (pending b)))
      @ (if failure b = EOF then [Close] else []))"
proof (induction conv b rule: readLoop.induct)
  case (1 conv b)
  show ?case
  proof (cases "cutLine (pending b)")
    case None
    then show ?thesis
      by (subst readLoop.simps, subst completeLines.simps)
         (simp add: ReadString_def List.map_filter_simps)
  next
    case (Some lr)
    obtain l r where lr: "lr = (l, r)" by (cases lr)
    have rs: "ReadString b = ((l, None), b\<lparr> pending := r \<rparr>)"
      using Some lr by (simp add: ReadString_def)
    have ih: "readLoop conv (b\<lparr> pending := r \<rparr>) =
        (if failure b = EOF then None else Some (failure b),
         map Send (List.map_filter conv (completeLines r))
         @ (if failure b = EOF then [Close] else []))"
      using "1.IH" [OF rs [symmetric] refl refl] by simp
    show ?thesis using Some lr
      by (subst readLoop.simps, subst completeLines.simps)
         (simp add: rs ih List.map_filter_simps split: option.splits)
  qed
qed

lemma run_started:
  "run conv (Inr cmd) =
     (if stdoutErr cmd = EOF
      then (case waitErr cmd of
              Some err \<Rightarrow> Some err
            | None \<Rightarrow> if stderrErr cmd = None \<and> stderrData cmd \<noteq> ''''
                      then Some (ErrorsNew (stderrData cmd)) else None,
            map Send (List.map_filter conv (completeLines (stdoutData cmd)))
            @ [Close, ReadAllStderr, Wait, Wait])
      else (Some (stdoutErr cmd),
            map Send (List.map_filter conv (completeLines (stdoutData cmd))) @ [Wait]))"
  by (auto simp: run_def readLoop_lines Let_def split: option.splits)

subsection \<open>The error an operation returns\<close>

text \<open>
  Claim C3. When the read of standard output is completed (the stream of the started
  process ends with \<open>io.EOF\<close>), the error of \<open>cmd.Wait\<close> is returned first; the content
  of standard error is returned, as one error, only when \<open>cmd.Wait\<close> returned none, the
  read of standard error succeeded and it holds at least one byte. So the result is
  never nil when the process exits with a failure status, whatever the lines it
  printed. This holds for the shared body with any conversion, hence for each of the
  five operations; it is stated for the body and for \<open>UpdateOnly\<close>.
\<close>

theorem exit_status_precedes_stderr:
  assumes "stdoutErr cmd = EOF"
  shows "fst (run conv (Inr cmd)) =
           (case waitErr cmd of
              Some err \<Rightarrow> Some err
            | None \<Rightarrow> if stderrErr cmd = None \<and> stderrData cmd \<noteq> ''''
                      then Some (ErrorsNew (stderrData cmd)) else None)
         \<and> (start exec (c\<lparr> updateOnly := True \<rparr>) = Inr cmd \<longrightarrow>
              fst (UpdateOnly exec c) =
                (case waitErr cmd of
                   Some err \<Rightarrow> Some err
                 | None \<Rightarrow> if stderrErr cmd = None \<and> stderrData cmd \<noteq> ''''
                           then Some (ErrorsNew (stderrData cmd)) else None))"
  using assms by (simp add: run_started UpdateOnly_def)

theorem exit_status_precedes_stderr_witness:
  "stdoutErr failedProcess = EOF
   \<and> start (\<lambda>p a. failedProcess) (newClassic ''NinitePro.exe''\<lparr> updateOnly := True \<rparr>)
       = Inr failedProcess
   \<and> stderrData failedProcess = ''boom''
   \<and> fst (UpdateOnly (\<lambda>p a. failedProcess) (newClassic ''NinitePro.exe''))
       = Some (OtherError ''exit status 1'')"
proof -
  have s: "start (\<lambda>p a. failedProcess) (newClassic ''NinitePro.exe''\<lparr> updateOnly := True \<rparr>)
      = Inr failedProcess"
    by (simp add: start_def failedProcess_def quietProcess_def)
  have e: "stdoutErr failedProcess = EOF"
    by (simp add: failedProcess_def quietProcess_def)
  show ?thesis
    using exit_status_precedes_stderr
      [OF e, of statusRecord "\<lambda>p a. failedProcess" "newClassic ''NinitePro.exe''"] s e
    by (simp add: failedProcess_def quietProcess_def)
qed

text \<open>
  Claim C5. When a read of standard output fails with an error that is not \<open>io.EOF\<close>,
  the operation returns that error at once: on this path it does not close the
  channel and it does not read standard error. This holds for the shared body with
  any conversion, hence for each of the five operations; it is stated for the body
  and for \<open>UpdateOnly\<close>.
\<close>

theorem read_failure_returns_without_close:
  assumes "stdoutErr cmd \<noteq> EOF"
  shows "fst (run conv (Inr cmd)) = Some (stdoutErr cmd)
         \<and> Close \<notin> set (snd (run conv (Inr cmd)))
         \<and> ReadAllStderr \<notin> set (snd (run conv (Inr cmd)))
         \<and> (start exec (c\<lparr> updateOnly := True \<rparr>) = Inr cmd \<longrightarrow>
              fst (UpdateOnly exec c) = Some (stdoutErr cmd)
              \<and> Close \<notin> set (snd (UpdateOnly exec c))
              \<and> ReadAllStderr \<notin> set (snd (UpdateOnly exec c)))"
  using assms by (auto simp: run_started UpdateOnly_def)

theorem read_failure_returns_without_close_witness:
  "stdoutErr brokenPipeProcess \<noteq> EOF
   \<and> start (\<lambda>p a. brokenPipeProcess) (newClassic ''NinitePro.exe''\<lparr> updateOnly := True \<rparr>)
       = Inr brokenPipeProcess
   \<and> fst (UpdateOnly (\<lambda>p a. brokenPipeProcess) (newClassic ''NinitePro.exe''))
       = Some (OtherError ''read |0: file already closed'')
   \<and> Close \<notin> set (snd (UpdateOnly (\<lambda>p a. brokenPipeProcess) (newClassic ''NinitePro.exe'')))"
proof -
  have s: "start (\<lambda>p a. brokenPipeProcess) (newClassic ''NinitePro.exe''\<lparr> updateOnly := True \<rparr>)
      = Inr brokenPipeProcess"
    by (simp add: start_def brokenPipeProcess_def quietProcess_def)
  have e: "stdoutErr brokenPipeProcess \<noteq> EOF"
    by (simp add: brokenPipeProcess_def quietProcess_def)
  show ?thesis
    using read_failure_returns_without_close
      [OF e, of statusRecord "\<lambda>p a. brokenPipeProcess" "newClassic ''NinitePro.exe''"] s e
    by (simp add: brokenPipeProcess_def quietProcess_def)
qed

subsection \<open>What \<open>Uninstall\<close> launches\<close>

text \<open>
  Claim C9. The uninstall field has no effect on the argument list: with the field
  true, \<open>composeArgs\<close> gives the same list as with the field false, and \<open>start\<close> launches
  the same process. So, for a configuration a caller can hold, what \<open>Uninstall\<close> does
  is what the shared body does with the process that the system starts for the path
  and the list made of the silent-mode flag and the attribute flags only, with no
  verb flag.
\<close>

theorem uninstall_adds_no_flag:
  "composeArgs (c\<lparr> uninstall := True \<rparr>) = composeArgs (c\<lparr> uninstall := False \<rparr>)
   \<and> start exec (c\<lparr> uninstall := True \<rparr>) = start exec (c\<lparr> uninstall := False \<rparr>)
   \<and> (built c \<longrightarrow>
        Uninstall exec c =
          run statusRecord
            (let cmd = exec (path c) ([''/silent'', ''.''] @ attributeFlags c)
             in case startErr cmd of Some err \<Rightarrow> Inl err | None \<Rightarrow> Inr cmd))"
proof -
  have s: "start exec (c\<lparr> uninstall := b \<rparr>) = start exec c" for b
    by (simp add: start_def composeArgs_uninstall)
  have "start exec c =
      (let cmd = exec (path c) ([''/silent'', ''.''] @ attributeFlags c)
       in case startErr cmd of Some err \<Rightarrow> Inl err | None \<Rightarrow> Inr cmd)" if "built c"
    unfolding start_def built_composeArgs [OF that] by (simp add: Let_def)
  then show ?thesis
    by (simp add: Uninstall_def s composeArgs_uninstall)
qed

theorem uninstall_adds_no_flag_witness:
  "built (Select (newClassic ''NinitePro.exe'') [''Chrome''])
   \<and> Uninstall argsOnStderr (Select (newClassic ''NinitePro.exe'') [''Chrome''])
       = (Some (ErrorsNew ''/silent . /select Chrome ''), [Close, ReadAllStderr, Wait, Wait])"
proof -
  have b: "built (Select (newClassic ''NinitePro.exe'') [''Chrome''])"
    by (intro built.intros)
  show ?thesis
    using b uninstall_adds_no_flag [of "Select (newClassic ''NinitePro.exe'') [''Chrome'']" argsOnStderr]
    by (simp add: setter_defs attributeFlags_def flag_defs argsOnStderr_def quietProcess_def
          run_started completeLines_Nil List.map_filter_simps)
qed


subsection \<open>The records an operation sends\<close>

lemma cutLine_line: "cutLine s = Some (l, r) \<Longrightarrow> l \<noteq> [] \<and> last l = LF \<and> s = l @ r"
  by (induction s arbitrary: l r) (auto split: if_splits option.splits)

lemma completeLines_end: "l \<in> set (completeLines s) \<Longrightarrow> l \<noteq> [] \<and> last l = LF"
proof (induction s rule: completeLines.induct)
  case (1 s)
  show ?case
  proof (cases "cutLine s")
    case None
    with "1.prems" show ?thesis by (simp add: completeLines_last)
  next
    case (Some lr)
    obtain l0 r where lr: "lr = (l0, r)" by (cases lr)
    from "1.prems" Some lr have "l = l0 \<or> l \<in> set (completeLines r)"
      by (auto simp: completeLines_cut)
    then show ?thesis
    proof
      assume "l = l0"
      with cutLine_line [of s l0 r] Some lr show ?thesis by simp
    next
      assume "l \<in> set (completeLines r)"
      then show ?thesis by (rule "1.IH" [OF Some lr [symmetric]])
    qed
  qed
qed

lemma records_before_LF:
  assumes "l \<noteq> []" and "last l = LF"
  shows "statusRecord l = None" "freezeRecord l = None" "versionRecord l = None"
    "auditRecord l = None"
  using assms
  by (simp_all add: statusRecord_def freezeRecord_def versionRecord_def auditRecord_def
        FindStringSubmatch_before_LF solid_patterns final_patterns)

lemma map_filter_none: "(\<And>x. x \<in> set xs \<Longrightarrow> f x = None) \<Longrightarrow> List.map_filter f xs = []"
  by (induction xs) (simp_all add: List.map_filter_simps)

lemma run_sends_nothing:
  assumes "\<And>l. l \<noteq> [] \<Longrightarrow> last l = LF \<Longrightarrow> conv l = None"
  shows "Send r \<notin> set (snd (run conv started))"
proof -
  have "List.map_filter conv (completeLines s) = []" for s
    by (rule map_filter_none) (use assms completeLines_end in blast)
  then show ?thesis
    by (cases started) (auto simp: run_started, simp add: run_def)
qed

lemma no_record_is_ever_sent:
  "Send r \<notin> set (snd (UpdateOnly exec c))"
  "Send r \<notin> set (snd (Uninstall exec c))"
  "Send r \<notin> set (snd (Freeze exec c output locs))"
  "Send v \<notin> set (snd (List exec c))"
  "Send a \<notin> set (snd (Audit exec c))"
  by (simp_all add: UpdateOnly_def Uninstall_def Freeze_def List_def Audit_def
        run_sends_nothing records_before_LF)

lemma completeLines_oneLine:
  "completeLines (''App Name : Installed'' @ [LF]) = [''App Name : Installed'' @ [LF]]"
proof -
  have "cutLine (''App Name : Installed'' @ [LF]) = Some (''App Name : Installed'' @ [LF], [])"
    by (simp add: LF_def)
  then show ?thesis
    by (simp add: completeLines_cut completeLines_Nil)
qed

lemma completeLines_unterminated: "completeLines ''App Name : Installed'' = []"
proof -
  have "cutLine ''App Name : Installed'' = None"
    by (simp add: LF_def)
  then show ?thesis
    by (rule completeLines_last)
qed

text \<open>
  Claim C4 says that an operation sends one record for each line that matches its
  pattern, in the order of the lines, that a line that does not match gives no record
  and no error, and that at the end of the stream the channel is closed before
  standard error is read. The order, the silence on a line that gives no record and
  the closing before the read of standard error hold (\<open>run_started\<close>). The records do
  not: the loop hands the pattern each line with its line feed, and no pattern matches
  a text that ends with a line feed, so no operation sends any record
  (\<open>no_record_is_ever_sent\<close>); and the text after the last line feed is dropped at the
  end of the stream. So \<open>UpdateOnly\<close>, on a process that prints the line
  \<open>App Name : Installed\<close> and a line feed, or the same line with no line feed, closes
  the channel with nothing sent, although the line gives a record.
\<close>

theorem UpdateOnly_drops_matching_line:
  "statusRecord ''App Name : Installed'' =
     Some \<lparr> App = ''App Name'', Status = ''Installed'', Reason = '''', Version = '''' \<rparr>
   \<and> UpdateOnly (\<lambda>p a. oneLineProcess) (newClassic ''NinitePro.exe'')
       = (None, [Close, ReadAllStderr, Wait, Wait])
   \<and> UpdateOnly (\<lambda>p a. unterminatedProcess) (newClassic ''NinitePro.exe'')
       = (None, [Close, ReadAllStderr, Wait, Wait])"
proof (intro conjI)
  show "statusRecord ''App Name : Installed'' =
     Some \<lparr> App = ''App Name'', Status = ''Installed'', Reason = '''', Version = '''' \<rparr>"
    by (simp add: statusRecord_def status_plain)
next
  have "statusRecord (''App Name : Installed'' @ [LF]) = None"
    by (rule records_before_LF) simp_all
  then show "UpdateOnly (\<lambda>p a. oneLineProcess) (newClassic ''NinitePro.exe'')
       = (None, [Close, ReadAllStderr, Wait, Wait])"
    by (simp add: UpdateOnly_def start_def oneLineProcess_def quietProcess_def run_started
          completeLines_oneLine List.map_filter_simps del: append.simps)
next
  show "UpdateOnly (\<lambda>p a. unterminatedProcess) (newClassic ''NinitePro.exe'')
       = (None, [Close, ReadAllStderr, Wait, Wait])"
    by (simp add: UpdateOnly_def start_def unterminatedProcess_def quietProcess_def run_started
          completeLines_unterminated List.map_filter_simps)
qed

end
